theory Spec2Isabelle
  imports Complex_Main "HOL-Library.Sublist" "HOL-Library.Log_Nat" "HOL-Library.Monad_Syntax"
begin

section \<open>The Go runtime the program relies on\<close>

subsection \<open>Panics, slice indexing, statement sequences and counted loops\<close>

text \<open>
  Indexing a Go slice outside \<open>0 \<le> i < len\<close> is a run-time panic. \<open>idx\<close> is the checked
  read; \<open>None\<close> stands for the panic.
\<close>

datatype panic = IndexOutOfRange

definition idx :: "'a list \<Rightarrow> int \<Rightarrow> 'a option" where
  "idx xs i = (if 0 \<le> i \<and> i < int (length xs) then Some (xs ! nat i) else None)"

text \<open>
  A statement transforms a state \<open>'s\<close> or stops with \<open>Inl e\<close>. \<open>run\<close> executes statements
  in order and stops at the first panic; \<open>for_loop i n body\<close> is
  \<^verbatim>\<open>for ; i < n; i++ { body }\<close>, and \<^verbatim>\<open>for i := range n\<close> is \<open>for_loop 0 n\<close>.
\<close>

fun run :: "('s \<Rightarrow> 'e + 's) list \<Rightarrow> 's \<Rightarrow> 'e + 's" where
  "run [] s = Inr s"
| "run (f # fs) s = (case f s of Inl e \<Rightarrow> Inl e | Inr s' \<Rightarrow> run fs s')"

function for_loop :: "int \<Rightarrow> int \<Rightarrow> (int \<Rightarrow> 's \<Rightarrow> 'e + 's) \<Rightarrow> 's \<Rightarrow> 'e + 's" where
  "for_loop i n body s =
     (if i < n
      then (case body i s of Inl e \<Rightarrow> Inl e | Inr s' \<Rightarrow> for_loop (i + 1) n body s')
      else Inr s)"
  by pat_completeness auto
termination
  by (relation "measure (\<lambda>(i, n, body, s). nat (n - i))") auto

declare for_loop.simps [simp del]

text \<open>Arithmetic on \<^verbatim>\<open>int32\<close> wraps around.\<close>

definition wrap32 :: "int \<Rightarrow> int" where
  "wrap32 v = (v + 2 ^ 31) mod 2 ^ 32 - 2 ^ 31"

subsection \<open>\<^verbatim>\<open>float64\<close>: IEEE 754 binary64, round to nearest even\<close>

text \<open>
  A \<^verbatim>\<open>float64\<close> is a finite number (\<open>Finite r\<close>, with \<open>Finite 0\<close> the positive zero),
  the negative zero, an infinity (\<open>Inf True\<close> is the negative one) or a NaN.  The finite
  numbers of the format are the reals \<open>r\<close> with \<open>is_float64 r\<close>.  Every operation returns
  the exact result rounded to the nearest number of the format, ties to the even
  significand, and an infinity when the rounded result reaches \<open>2\<^sup>1\<^sup>0\<^sup>2\<^sup>4\<close>.  \<open>rhe\<close> rounds a
  real to the nearest integer, ties to even.
\<close>

datatype float64 = Finite real | NegZero | Inf bool | NaN

definition rhe :: "real \<Rightarrow> int" where
  "rhe t = (let f = \<lfloor>t\<rfloor>; d = t - of_int f
            in if d < 1 / 2 then f else if 1 / 2 < d then f + 1
               else if even f then f else f + 1)"

text \<open>
  The exponent of the unit in the last place of \<open>r\<close>: 53 significant bits, and never below
  \<open>2\<^sup>-\<^sup>1\<^sup>0\<^sup>7\<^sup>4\<close>, the spacing of the subnormal numbers.
\<close>

definition ulp_exp :: "real \<Rightarrow> int" where
  "ulp_exp r = max (- 1074) (bitlen \<lfloor>\<bar>r\<bar> * 2 ^ 1074\<rfloor> - 1127)"

definition round64 :: "real \<Rightarrow> real" where
  "round64 r = of_int (rhe (r / 2 powi ulp_exp r)) * 2 powi ulp_exp r"

definition is_float64 :: "real \<Rightarrow> bool" where
  "is_float64 r \<longleftrightarrow> round64 r = r \<and> \<bar>r\<bar> < 2 ^ 1024"

text \<open>
  \<open>mk_float neg r\<close> is the \<^verbatim>\<open>float64\<close> nearest to the exact result \<open>r\<close>; \<open>neg\<close> is the sign
  the operation gives to a zero result.
\<close>

definition mk_float :: "bool \<Rightarrow> real \<Rightarrow> float64" where
  "mk_float neg r =
     (let v = round64 r
      in if 2 ^ 1024 \<le> \<bar>v\<bar> then Inf (v < 0)
         else if v = 0 then (if neg then NegZero else Finite 0)
         else Finite v)"

fun signbit :: "float64 \<Rightarrow> bool" where
  "signbit (Finite r) = (r < 0)"
| "signbit NegZero = True"
| "signbit (Inf s) = s"
| "signbit NaN = False"

fun fval :: "float64 \<Rightarrow> real" where
  "fval (Finite r) = r"
| "fval _ = 0"

fun is_finite :: "float64 \<Rightarrow> bool" where
  "is_finite (Finite r) = True"
| "is_finite NegZero = True"
| "is_finite _ = False"

fun fneg :: "float64 \<Rightarrow> float64" where
  "fneg (Finite r) = (if r = 0 then NegZero else Finite (- r))"
| "fneg NegZero = Finite 0"
| "fneg (Inf s) = Inf (\<not> s)"
| "fneg NaN = NaN"

fun fadd :: "float64 \<Rightarrow> float64 \<Rightarrow> float64" where
  "fadd NaN b = NaN"
| "fadd a NaN = NaN"
| "fadd (Inf s) (Inf t) = (if s = t then Inf s else NaN)"
| "fadd (Inf s) b = Inf s"
| "fadd a (Inf t) = Inf t"
| "fadd a b =
     (let r = fval a + fval b
      in if r = 0 then mk_float (signbit a \<and> signbit b) 0 else mk_float (r < 0) r)"

definition fsub :: "float64 \<Rightarrow> float64 \<Rightarrow> float64" where
  "fsub a b = fadd a (fneg b)"

fun fmul :: "float64 \<Rightarrow> float64 \<Rightarrow> float64" where
  "fmul NaN b = NaN"
| "fmul a NaN = NaN"
| "fmul (Inf s) (Inf t) = Inf (s \<noteq> t)"
| "fmul (Inf s) b = (if fval b = 0 then NaN else Inf (s \<noteq> signbit b))"
| "fmul a (Inf t) = (if fval a = 0 then NaN else Inf (signbit a \<noteq> t))"
| "fmul a b = mk_float (signbit a \<noteq> signbit b) (fval a * fval b)"

fun fdiv :: "float64 \<Rightarrow> float64 \<Rightarrow> float64" where
  "fdiv NaN b = NaN"
| "fdiv a NaN = NaN"
| "fdiv (Inf s) (Inf t) = NaN"
| "fdiv (Inf s) b = Inf (s \<noteq> signbit b)"
| "fdiv a (Inf t) = mk_float (signbit a \<noteq> t) 0"
| "fdiv a b =
     (if fval b = 0
      then (if fval a = 0 then NaN else Inf (signbit a \<noteq> signbit b))
      else mk_float (signbit a \<noteq> signbit b) (fval a / fval b))"

text \<open>Go's \<^verbatim>\<open>==\<close> and \<^verbatim>\<open><=\<close> on \<^verbatim>\<open>float64\<close>: the zeros are equal, a NaN compares to nothing.\<close>

fun feq :: "float64 \<Rightarrow> float64 \<Rightarrow> bool" where
  "feq NaN b = False"
| "feq a NaN = False"
| "feq (Inf s) (Inf t) = (s = t)"
| "feq (Inf s) b = False"
| "feq a (Inf t) = False"
| "feq a b = (fval a = fval b)"

fun fle :: "float64 \<Rightarrow> float64 \<Rightarrow> bool" where
  "fle NaN b = False"
| "fle a NaN = False"
| "fle (Inf s) (Inf t) = (s \<or> \<not> t)"
| "fle (Inf s) b = s"
| "fle a (Inf t) = (\<not> t)"
| "fle a b = (fval a \<le> fval b)"

text \<open>A finite \<^verbatim>\<open>float64\<close>: a zero or a finite number of the format.\<close>

definition finite_float64 :: "float64 \<Rightarrow> bool" where
  "finite_float64 a \<longleftrightarrow> is_finite a \<and> is_float64 (fval a)"

subsection \<open>The \<^verbatim>\<open>fmt\<close> verbs and \<^verbatim>\<open>strings.Index\<close>\<close>

text \<open>
  \<^verbatim>\<open>%.Nf\<close> prints a \<^verbatim>\<open>float64\<close> with \<open>N\<close> digits after the decimal point: the exact decimal
  expansion of the value, rounded half to even at the last digit kept, and the sign of the
  value also where the digits are all zero.  The infinities print as \<^verbatim>\<open>+Inf\<close> and \<^verbatim>\<open>-Inf\<close>,
  a NaN as \<^verbatim>\<open>NaN\<close>.
\<close>

fun dec_digits :: "nat \<Rightarrow> string" where
  "dec_digits n =
     (if n < 10 then [''0123456789'' ! n]
      else dec_digits (n div 10) @ [''0123456789'' ! (n mod 10)])"

declare dec_digits.simps [simp del]

definition pad_zero :: "nat \<Rightarrow> string \<Rightarrow> string" where
  "pad_zero p ds = replicate (p - length ds) (CHR ''0'') @ ds"

definition fixed_digits :: "nat \<Rightarrow> nat \<Rightarrow> string" where
  "fixed_digits p n =
     dec_digits (n div 10 ^ p) @
     (if p = 0 then [] else CHR ''.'' # pad_zero p (dec_digits (n mod 10 ^ p)))"

fun fmt_f :: "nat \<Rightarrow> float64 \<Rightarrow> string" where
  "fmt_f p (Finite r) =
     (if r < 0 then ''-'' else []) @ fixed_digits p (nat (rhe (\<bar>r\<bar> * 10 ^ p)))"
| "fmt_f p NegZero = ''-'' @ fixed_digits p 0"
| "fmt_f p (Inf s) = (if s then ''-Inf'' else ''+Inf'')"
| "fmt_f p NaN = ''NaN''"

text \<open>
  \<^verbatim>\<open>%q\<close> prints a string as a double-quoted Go string literal: the quote and the backslash
  are escaped with a backslash, the other printable ASCII characters stand for themselves,
  control characters use their escape (\<^verbatim>\<open>\n\<close>, \<^verbatim>\<open>\t\<close>, ... or \<^verbatim>\<open>\xNN\<close>). Bytes from 128,
  which Go decodes as UTF-8, are kept as they are: that is what Go prints for the
  printable characters beyond ASCII.  Go escapes a byte that is not valid UTF-8 and a
  character that is not printable; strings with such bytes are outside this model of the
  verb, which is exact for ASCII strings.
\<close>

definition hex2 :: "nat \<Rightarrow> string" where
  "hex2 b = [''0123456789abcdef'' ! (b div 16), ''0123456789abcdef'' ! (b mod 16)]"

definition quote_char :: "char \<Rightarrow> string" where
  "quote_char c =
     (let b = (of_char c :: nat)
      in if b = 0x22 \<or> b = 0x5C then [CHR 0x5C, c]
         else if 0x20 \<le> b \<and> b < 0x7F then [c]
         else if b = 7 then [CHR 0x5C, CHR ''a'']
         else if b = 8 then [CHR 0x5C, CHR ''b'']
         else if b = 12 then [CHR 0x5C, CHR ''f'']
         else if b = 10 then [CHR 0x5C, CHR ''n'']
         else if b = 13 then [CHR 0x5C, CHR ''r'']
         else if b = 9 then [CHR 0x5C, CHR ''t'']
         else if b = 11 then [CHR 0x5C, CHR ''v'']
         else if b < 0x20 \<or> b = 0x7F then [CHR 0x5C, CHR ''x''] @ hex2 b
         else [c])"

definition fmt_q :: "string \<Rightarrow> string" where
  "fmt_q s = CHR 0x22 # concat (map quote_char s) @ [CHR 0x22]"

text \<open>
  \<^verbatim>\<open>strings.Index(s, substr)\<close> is the index of the first occurrence of \<open>substr\<close> in \<open>s\<close>,
  or \<open>-1\<close> when there is none.
\<close>

fun strings_Index_from :: "int \<Rightarrow> string \<Rightarrow> string \<Rightarrow> int" where
  "strings_Index_from i [] substr = (if substr = [] then i else - 1)"
| "strings_Index_from i (c # cs) substr =
     (if prefix substr (c # cs) then i else strings_Index_from (i + 1) cs substr)"

definition strings_Index :: "string \<Rightarrow> string \<Rightarrow> int" where
  "strings_Index s substr = strings_Index_from 0 s substr"

text \<open>
  \<^verbatim>\<open>fmt.Fprintf(w, format, args...)\<close> on a growing buffer: the arguments are evaluated
  first, and an index out of range among them panics before anything is written; otherwise
  the formatted text is appended.  The program discards what \<^verbatim>\<open>Fprintf\<close> returns.
\<close>

definition Fprintf :: "('a \<Rightarrow> string) \<Rightarrow> 'a option \<Rightarrow> string \<Rightarrow> (panic \<times> string) + string" where
  "Fprintf format args w =
     (case args of None \<Rightarrow> Inl (IndexOutOfRange, w) | Some a \<Rightarrow> Inr (w @ format a))"

section \<open>The program\<close>

subsection \<open>Formats\<close>

definition linefmt ::
  "float64 \<times> float64 \<times> float64 \<times> float64 \<times> string \<times> string \<times> float64 \<Rightarrow> string" where
  \<open>linefmt = (\<lambda>(xp1, yp1, xp2, yp2, color, opacity, sp).
     ''<line xp1="'' @ fmt_f 7 xp1 @ ''" yp1="'' @ fmt_f 7 yp1 @
     ''" xp2="'' @ fmt_f 7 xp2 @ ''" yp2="'' @ fmt_f 7 yp2 @
     ''" color='' @ fmt_q color @ '' opacity='' @ fmt_q opacity @
     '' sp="'' @ fmt_f 3 sp @ ''"/>\<newline>'')\<close>

definition dotfmt :: "float64 \<times> float64 \<times> string \<times> string \<times> float64 \<Rightarrow> string" where
  \<open>dotfmt = (\<lambda>(xp, yp, color, opacity, wp).
     ''<ellipse xp="'' @ fmt_f 7 xp @ ''" yp="'' @ fmt_f 7 yp @
     ''" hr="100"color='' @ fmt_q color @ '' opacity='' @ fmt_q opacity @
     '' wp="'' @ fmt_f 3 wp @ ''"/>\<newline>'')\<close>

subsection \<open>\<^verbatim>\<open>vmap\<close> and \<^verbatim>\<open>colorop\<close>\<close>

text \<open>
  The expression of \<^verbatim>\<open>vmap\<close> is evaluated as written: two differences, their product, the
  quotient by the third difference, the sum; the product is divided before anything is
  added to it, so no two operations can be fused into one rounding.
\<close>

definition vmap :: "float64 \<Rightarrow> float64 \<Rightarrow> float64 \<Rightarrow> float64 \<Rightarrow> float64 \<Rightarrow> float64" where
  "vmap v low1 high1 low2 high2 =
     fadd low2 (fdiv (fmul (fsub high2 low2) (fsub v low1)) (fsub high1 low1))"

definition colorop :: "string \<Rightarrow> string \<times> string" where
  "colorop color =
     (let ci = strings_Index color '':''; op = ''100''
      in if ci > 0 \<and> ci < int (length color)
         then (take (nat ci) color, drop (nat (ci + 1)) color)
         else (color, op))"

subsection \<open>The emitters\<close>

definition deckpolygon ::
  "string \<Rightarrow> float64 list \<Rightarrow> float64 list \<Rightarrow> string \<Rightarrow> (panic \<times> string) + string" where
  \<open>deckpolygon w x y color =
     (let nc = int (length x)
      in if nc < 3 \<or> nc \<noteq> int (length y) then Inr w
         else
           (let (fill, op) = colorop color; end' = nc - 1
            in run
              [Fprintf (\<lambda>v. ''<polygon color='' @ fmt_q fill @ '' opacity='' @ fmt_q op @
                             '' xc="'' @ fmt_f 5 v) (idx x 0),
               for_loop 1 nc (\<lambda>i. Fprintf (\<lambda>v. '' '' @ fmt_f 5 v) (idx x i)),
               Fprintf (\<lambda>v. '' '' @ fmt_f 5 v @ ''" '') (idx x end'),
               Fprintf (\<lambda>v. ''yc="'' @ fmt_f 5 v) (idx y 0),
               for_loop 1 nc (\<lambda>i. Fprintf (\<lambda>v. '' '' @ fmt_f 5 v) (idx y i)),
               Fprintf (\<lambda>v. '' '' @ fmt_f 5 v @ ''"/>\<newline>'') (idx y end')] w))\<close>

definition deckdot ::
  "string \<Rightarrow> float64 list \<Rightarrow> float64 list \<Rightarrow> string \<Rightarrow> float64 \<Rightarrow> (panic \<times> string) + string" where
  "deckdot w x y color size' =
     (let (fill, op) = colorop color
      in for_loop 0 (int (length x))
           (\<lambda>i. Fprintf dotfmt
                  (do { xi \<leftarrow> idx x i; yi \<leftarrow> idx y i; Some (xi, yi, fill, op, size') })) w)"

definition deckpolyline ::
  "string \<Rightarrow> float64 list \<Rightarrow> float64 list \<Rightarrow> string \<Rightarrow> float64 \<Rightarrow> (panic \<times> string) + string" where
  "deckpolyline w x y color size' =
     (let (fill, op) = colorop color; lx = int (length x)
      in run
        [for_loop 0 (lx - 1)
           (\<lambda>i. Fprintf linefmt
                  (do { x1 \<leftarrow> idx x i; y1 \<leftarrow> idx y i; x2 \<leftarrow> idx x (i + 1); y2 \<leftarrow> idx y (i + 1);
                        Some (x1, y1, x2, y2, fill, op, size') })),
         Fprintf linefmt
           (do { x1 \<leftarrow> idx x 0; y1 \<leftarrow> idx y 0; x2 \<leftarrow> idx x (lx - 1); y2 \<leftarrow> idx y (lx - 1);
                 Some (x1, y1, x2, y2, fill, op, size') })] w)"

definition mapshape ::
  "string \<Rightarrow> float64 list \<Rightarrow> float64 list \<Rightarrow> string \<Rightarrow> string \<Rightarrow> float64 \<Rightarrow> (panic \<times> string) + string" where
  "mapshape w x y shape color size' =
     (if shape \<in> set [''p'', ''poly'', ''region'', ''polygon''] then deckpolygon w x y color
      else if shape \<in> set [''l'', ''line'', ''border''] then deckpolyline w x y color size'
      else if shape \<in> set [''d'', ''dot'', ''circle''] then deckdot w x y color size'
      else Inr w)"

subsection \<open>Geometry records and the adapters\<close>

text \<open>
  \<^verbatim>\<open>shp.Point\<close>, \<^verbatim>\<open>shp.PolyLine\<close> (of which \<^verbatim>\<open>shp.Polygon\<close> is a copy) and
  \<^verbatim>\<open>shp.MultiPoint\<close>, without the bounding box that the program never reads.
  \<open>NumParts\<close>, \<open>NumPoints\<close> and the entries of \<open>Parts\<close> are \<^verbatim>\<open>int32\<close>.
\<close>

record Point =
  X :: float64
  Y :: float64

record PolyLine =
  NumParts :: int
  NumPoints :: int
  Parts :: "int list"
  Points :: "Point list"

type_synonym Polygon = PolyLine

record MultiPoint =
  MNumPoints :: int
  MPoints :: "Point list"

record Geometry =
  Xmin :: float64
  Xmax :: float64
  Ymin :: float64
  Ymax :: float64
  Latmin :: float64
  Latmax :: float64
  Longmin :: float64
  Longmax :: float64

record Config =
  maptype :: string
  color :: string
  shapesize :: float64

text \<open>
  The coordinate loop of the adapters: for the indices \<open>lo \<le> j < hi\<close> it appends the
  mapped coordinates of point \<open>j\<close> to the slices \<open>x\<close> and \<open>y\<close>, which start empty.
\<close>

definition append_coord ::
  "Point list \<Rightarrow> Geometry \<Rightarrow> int \<Rightarrow> float64 list \<times> float64 list \<Rightarrow>
   panic + float64 list \<times> float64 list" where
  "append_coord pts g j = (\<lambda>(x, y).
     (case idx pts j of
        None \<Rightarrow> Inl IndexOutOfRange
      | Some p \<Rightarrow>
          Inr (x @ [vmap (X p) (Longmin g) (Longmax g) (Xmin g) (Xmax g)],
               y @ [vmap (Y p) (Latmin g) (Latmax g) (Ymin g) (Ymax g)])))"

definition part_coords ::
  "Point list \<Rightarrow> Geometry \<Rightarrow> int \<Rightarrow> int \<Rightarrow> panic + float64 list \<times> float64 list" where
  "part_coords pts g lo hi = for_loop lo hi (append_coord pts g) ([], [])"

text \<open>
  One part: read its first index \<open>lo\<close> and its bound \<open>hi\<close> (the loop condition reads the
  bound before the first iteration, and \<open>Parts\<close> does not change), collect the coordinates,
  call \<open>mapshape\<close>.
\<close>

definition shape_part ::
  "PolyLine \<Rightarrow> Geometry \<Rightarrow> Config \<Rightarrow> int option \<Rightarrow> int option \<Rightarrow> string \<Rightarrow> (panic \<times> string) + string" where
  "shape_part poly g c lo hi w =
     (case lo of
        None \<Rightarrow> Inl (IndexOutOfRange, w)
      | Some l \<Rightarrow>
          (case hi of
             None \<Rightarrow> Inl (IndexOutOfRange, w)
           | Some h \<Rightarrow>
               (case part_coords (Points poly) g l h of
                  Inl e \<Rightarrow> Inl (e, w)
                | Inr (x, y) \<Rightarrow> mapshape w x y (maptype c) (color c) (shapesize c))))"

definition PolygonCoords ::
  "string \<Rightarrow> Polygon \<Rightarrow> Geometry \<Rightarrow> Config \<Rightarrow> (panic \<times> string) + string" where
  "PolygonCoords dest poly g c =
     (let last' = wrap32 (NumParts poly - 1)
      in run
        [for_loop 0 last'
           (\<lambda>i. shape_part poly g c (idx (Parts poly) i) (idx (Parts poly) (i + 1))),
         shape_part poly g c (idx (Parts poly) last') (Some (NumPoints poly))] dest)"


definition MultipointCoords ::
  "string \<Rightarrow> MultiPoint \<Rightarrow> Geometry \<Rightarrow> Config \<Rightarrow> (panic \<times> string) + string" where
  "MultipointCoords dest mp g c =
     (case part_coords (MPoints mp) g 0 (MNumPoints mp) of
        Inl e \<Rightarrow> Inl (e, dest)
      | Inr (x, y) \<Rightarrow> mapshape dest x y ''dot'' (color c) (shapesize c))"

definition PointCoords :: "string \<Rightarrow> Point \<Rightarrow> Geometry \<Rightarrow> Config \<Rightarrow> string" where
  "PointCoords dest p g c =
     (let x = vmap (X p) (Longmin g) (Longmax g) (Xmin g) (Xmax g);
          y = vmap (Y p) (Latmin g) (Latmax g) (Ymin g) (Ymax g);
          (fill, op) = colorop (color c)
      in dest @ dotfmt (x, y, fill, op, shapesize c))"

subsection \<open>The markup of each emitter\<close>

text \<open>
  What the emitters append to the stream, written as functions of the coordinates.
  \<open>line_segments\<close> are the segments between consecutive points and \<open>closing_segment\<close> the
  segment from the first point to the last; \<open>spaced\<close> is a list of numbers at five decimals
  separated by single spaces; \<open>dot_markup\<close> holds one ellipse for each point.
\<close>

definition line_segments :: "float64 list \<Rightarrow> float64 list \<Rightarrow> string \<Rightarrow> float64 \<Rightarrow> string list" where
  "line_segments x y col size' =
     map (\<lambda>k. linefmt (x ! k, y ! k, x ! Suc k, y ! Suc k, fst (colorop col), snd (colorop col), size'))
       [0..<length x - 1]"

definition closing_segment :: "float64 list \<Rightarrow> float64 list \<Rightarrow> string \<Rightarrow> float64 \<Rightarrow> string" where
  "closing_segment x y col size' =
     linefmt (x ! 0, y ! 0, x ! (length x - 1), y ! (length x - 1),
              fst (colorop col), snd (colorop col), size')"

definition spaced :: "float64 list \<Rightarrow> string" where
  "spaced vs = fmt_f 5 (hd vs) @ concat (map (\<lambda>v. '' '' @ fmt_f 5 v) (tl vs))"

definition polygon_markup :: "float64 list \<Rightarrow> float64 list \<Rightarrow> string \<Rightarrow> string" where
  \<open>polygon_markup x y col =
     ''<polygon color='' @ fmt_q (fst (colorop col)) @
     '' opacity='' @ fmt_q (snd (colorop col)) @
     '' xc="'' @ spaced (x @ [last x]) @ ''" yc="'' @ spaced (y @ [last y]) @ ''"/>\<newline>''\<close>

definition dot_markup :: "float64 list \<Rightarrow> float64 list \<Rightarrow> string \<Rightarrow> float64 \<Rightarrow> string list" where
  "dot_markup x y col size' =
     map (\<lambda>k. dotfmt (x ! k, y ! k, fst (colorop col), snd (colorop col), size')) [0..<length x]"

subsection \<open>The parts of a record\<close>









section \<open>Loops and statement sequences\<close>

text \<open>A counted loop is the sequence of its bodies, one for each index.\<close>

lemma for_loop_done: "n \<le> i \<Longrightarrow> for_loop i n body s = Inr s"
  by (simp add: for_loop.simps)

lemma for_loop_step:
  "i < n \<Longrightarrow> for_loop i n body s =
     (case body i s of Inl e \<Rightarrow> Inl e | Inr s' \<Rightarrow> for_loop (i + 1) n body s')"
  by (subst for_loop.simps) simp

lemma upt_shift: "[0..<Suc m] = 0 # map Suc [0..<m]"
  by (simp add: upt_conv_Cons map_Suc_upt del: upt_Suc)

lemma for_loop_run:
  "for_loop i n body s = run (map (\<lambda>k. body (i + int k)) [0..<nat (n - i)]) s"
proof (induction "nat (n - i)" arbitrary: i s)
  case 0
  then show ?case by (simp add: for_loop_done)
next
  case (Suc m)
  then have lt: "i < n" and m: "m = nat (n - (i + 1))" by linarith+
  have "[0..<nat (n - i)] = 0 # map Suc [0..<m]"
    using Suc.hyps(2) [symmetric] by (simp only: upt_shift)
  then show ?case
    using Suc.hyps(1) [OF m] m
    by (simp add: for_loop_step [OF lt] comp_def add.assoc split: sum.splits)
qed


lemma run_writes:
  "(\<And>k. k \<in> set ks \<Longrightarrow> f k = (\<lambda>w. Inr (w @ out k))) \<Longrightarrow>
   run (map f ks) w = Inr (w @ concat (map out ks))"
  by (induction ks arbitrary: w) auto

section \<open>The emitters\<close>

text \<open>
  With all reads in range, each emitter appends its markup to the stream and does not
  panic; the line emitter panics when \<open>x\<close> is empty or \<open>y\<close> is shorter than \<open>x\<close>.
\<close>

lemma Fprintf_Some: "Fprintf format (Some a) = (\<lambda>w. Inr (w @ format a))"
  by (rule ext) (simp add: Fprintf_def)

lemma Fprintf_None: "Fprintf format None w = Inl (IndexOutOfRange, w)"
  by (simp add: Fprintf_def)

lemma idx_nat: "k < length xs \<Longrightarrow> idx xs (int k) = Some (xs ! k)"
  by (simp add: idx_def)

lemma idx_Suc: "Suc k < length xs \<Longrightarrow> idx xs (int k + 1) = Some (xs ! Suc k)"
  by (simp add: idx_def nat_add_distrib)

lemma panic_form: "\<exists>w'. (e :: panic \<times> string) = (IndexOutOfRange, w')"
  by (cases e, case_tac a, simp)

lemma deckpolyline_ok:
  assumes "x \<noteq> []" and "length x \<le> length y"
  shows "deckpolyline w x y col size' =
         Inr (w @ concat (line_segments x y col size') @ closing_segment x y col size')"
proof -
  define body where "body = (\<lambda>i. Fprintf linefmt
     (do { x1 \<leftarrow> idx x i; y1 \<leftarrow> idx y i; x2 \<leftarrow> idx x (i + 1); y2 \<leftarrow> idx y (i + 1);
           Some (x1, y1, x2, y2, fst (colorop col), snd (colorop col), size') }))"
  have body_k: "body (int k) = (\<lambda>w. Inr (w @ linefmt (x ! k, y ! k, x ! Suc k, y ! Suc k,
                   fst (colorop col), snd (colorop col), size')))"
    if "k \<in> set [0..<length x - 1]" for k
  proof -
    from that have "k < length x" "Suc k < length x" "k < length y" "Suc k < length y"
      using assms by auto
    then show ?thesis
      by (simp add: body_def idx_nat idx_Suc Fprintf_Some)
  qed
  have n: "nat (int (length x) - 1) = length x - 1"
    by arith
  have "for_loop 0 (int (length x) - 1) body w =
        run (map (\<lambda>k. body (int k)) [0..<length x - 1]) w"
    by (simp add: for_loop_run n)
  also have "\<dots> = Inr (w @ concat (line_segments x y col size'))"
    unfolding line_segments_def by (rule run_writes) (rule body_k)
  finally have loop: "for_loop 0 (int (length x) - 1) body w =
                      Inr (w @ concat (line_segments x y col size'))" .
  have i0: "idx x 0 = Some (x ! 0)" and j0: "idx y 0 = Some (y ! 0)"
    using assms by (cases x; cases y; simp add: idx_def)+
  have il: "idx x (int (length x) - 1) = Some (x ! (length x - 1))"
    and jl: "idx y (int (length x) - 1) = Some (y ! (length x - 1))"
    using assms by (cases x; cases y; simp add: idx_def nat_diff_distrib)+
  have close: "Fprintf linefmt
           (do { x1 \<leftarrow> idx x 0; y1 \<leftarrow> idx y 0; x2 \<leftarrow> idx x (int (length x) - 1);
                 y2 \<leftarrow> idx y (int (length x) - 1);
                 Some (x1, y1, x2, y2, fst (colorop col), snd (colorop col), size') })
         = (\<lambda>w. Inr (w @ closing_segment x y col size'))"
    unfolding closing_segment_def i0 j0 il jl by (simp add: Fprintf_Some)
  show ?thesis
    by (simp add: deckpolyline_def case_prod_unfold Let_def loop [unfolded body_def] close)
qed

lemma deckpolyline_panics:
  assumes "x = [] \<or> length y < length x"
  shows "\<exists>w'. deckpolyline w x y col size' = Inl (IndexOutOfRange, w')"
proof -
  have none: "do { x1 \<leftarrow> idx x 0; y1 \<leftarrow> idx y 0; x2 \<leftarrow> idx x (int (length x) - 1);
             y2 \<leftarrow> idx y (int (length x) - 1);
             Some (x1, y1, x2, y2, a, b, size') } = None" for a b :: string
    using assms by (auto simp: idx_def split: Option.bind_splits)
  have "deckpolyline w x y col size' =
        (case for_loop 0 (int (length x) - 1)
                (\<lambda>i. Fprintf linefmt
                  (do { x1 \<leftarrow> idx x i; y1 \<leftarrow> idx y i; x2 \<leftarrow> idx x (i + 1); y2 \<leftarrow> idx y (i + 1);
                        Some (x1, y1, x2, y2, fst (colorop col), snd (colorop col), size') })) w of
           Inl e \<Rightarrow> Inl e | Inr w' \<Rightarrow> Inl (IndexOutOfRange, w'))"
    by (simp add: deckpolyline_def case_prod_unfold Let_def none Fprintf_None cong: sum.case_cong)
  then show ?thesis
    using panic_form by (auto split: sum.splits)
qed

lemma loop_writes:
  assumes "\<And>k. k < nat (n - i) \<Longrightarrow> args (i + int k) = Some (a k)"
  shows "for_loop i n (\<lambda>j. Fprintf format (args j)) w =
         Inr (w @ concat (map (\<lambda>k. format (a k)) [0..<nat (n - i)]))"
  unfolding for_loop_run
  by (rule run_writes) (simp add: assms Fprintf_Some)

lemma tl_nth_map: "map (\<lambda>k. xs ! Suc k) [0..<length xs - 1] = tl xs"
  by (cases xs) (simp_all add: map_nth)

lemma tail_loop:
  "for_loop 1 (int (length v)) (\<lambda>i. Fprintf format (idx v i)) w =
   Inr (w @ concat (map format (tl v)))"
proof -
  have "for_loop 1 (int (length v)) (\<lambda>i. Fprintf format (idx v i)) w =
        Inr (w @ concat (map (\<lambda>k. format (v ! Suc k)) [0..<nat (int (length v) - 1)]))"
    by (rule loop_writes) (simp add: idx_def nat_add_distrib)
  moreover have "nat (int (length v) - 1) = length v - 1" by arith
  moreover have "map (\<lambda>k. format (v ! Suc k)) [0..<length v - 1] = map format (tl v)"
    using tl_nth_map [of v, THEN arg_cong, of "map format"] by (simp add: comp_def)
  ultimately show ?thesis by simp
qed

lemma deckpolygon_ok:
  assumes "3 \<le> length x" and "length x = length y"
  shows "deckpolygon w x y col = Inr (w @ polygon_markup x y col)"
proof -
  have ne: "x \<noteq> []" "y \<noteq> []" using assms by auto
  have i0: "idx x 0 = Some (hd x)" and j0: "idx y 0 = Some (hd y)"
    using ne by (cases x; cases y; simp add: idx_def)+
  have il: "idx x (int (length x) - 1) = Some (last x)"
    and jl: "idx y (int (length x) - 1) = Some (last y)"
  proof -
    have n: "nat (int (length x) - 1) = length x - 1" by arith
    show "idx x (int (length x) - 1) = Some (last x)"
      using ne by (simp add: idx_def last_conv_nth n)
    show "idx y (int (length x) - 1) = Some (last y)"
      using ne by (simp add: idx_def last_conv_nth n assms(2) [symmetric])
  qed
  have sp: "spaced (v @ [last v]) =
              fmt_f 5 (hd v) @ concat (map (\<lambda>a. '' '' @ fmt_f 5 a) (tl v)) @ '' '' @ fmt_f 5 (last v)"
    if "v \<noteq> []" for v
    using that by (simp add: spaced_def)
  have ly: "int (length y) = int (length x)" using assms(2) by simp
  have c: "\<not> (int (length x) < 3 \<or> int (length x) \<noteq> int (length y))"
    using assms by simp
  show ?thesis
    unfolding deckpolygon_def Let_def
    apply (subst if_not_P [OF c])
    apply (simp add: case_prod_unfold i0 j0 il jl Fprintf_Some tail_loop
        tail_loop [of y, unfolded ly] polygon_markup_def sp [OF ne(1)] sp [OF ne(2)])
    done
qed

lemma deckdot_ok:
  assumes "length x \<le> length y"
  shows "deckdot w x y col size' = Inr (w @ concat (dot_markup x y col size'))"
proof -
  have "for_loop 0 (int (length x))
          (\<lambda>i. Fprintf dotfmt
             (do { xi \<leftarrow> idx x i; yi \<leftarrow> idx y i;
                   Some (xi, yi, fst (colorop col), snd (colorop col), size') })) w =
        Inr (w @ concat (map (\<lambda>k. dotfmt (x ! k, y ! k, fst (colorop col), snd (colorop col), size'))
                           [0..<nat (int (length x) - 0)]))"
    using assms by (intro loop_writes) (simp add: idx_def)
  then show ?thesis
    by (simp add: deckdot_def case_prod_unfold dot_markup_def Let_def)
qed

section \<open>Formatting and the style parser\<close>

text \<open>
  \<open>fmt_eval\<close> evaluates the verbs on numerals and literals.  \<open>colorop\<close> splits at the first
  separator, unless there is none or it is the first character.
\<close>

lemma replicate_numeral: "replicate (numeral k) x = x # replicate (pred_numeral k) x"
  by (simp add: numeral_eq_Suc)

lemmas fmt_eval = rhe_def fixed_digits_def pad_zero_def dec_digits.simps replicate_numeral
  fmt_q_def quote_char_def

lemma strings_Index_from_char:
  "strings_Index_from i s [c] =
     (if c \<in> set s then i + int (length (takeWhile (\<lambda>d. d \<noteq> c) s)) else - 1)"
  by (induction s arbitrary: i) auto

lemma takeWhile_length_less: "c \<in> set s \<Longrightarrow> length (takeWhile (\<lambda>d. d \<noteq> c) s) < length s"
  by (induction s) auto

lemma take_takeWhile_length: "take (length (takeWhile P s)) s = takeWhile P s"
  by (induction s) auto

lemma drop_takeWhile_length: "drop (Suc (length (takeWhile P s))) s = tl (dropWhile P s)"
  by (induction s) (auto simp: drop_Suc)

lemma colorop_split:
  "colorop s =
     (if CHR '':'' \<in> set s \<and> hd s \<noteq> CHR '':''
      then (takeWhile (\<lambda>c. c \<noteq> CHR '':'') s, tl (dropWhile (\<lambda>c. c \<noteq> CHR '':'') s))
      else (s, ''100''))"
proof (cases "CHR '':'' \<in> set s")
  case False
  then show ?thesis by (simp add: colorop_def strings_Index_def strings_Index_from_char)
next
  case True
  let ?n = "length (takeWhile (\<lambda>c. c \<noteq> CHR '':'') s)"
  have ci: "strings_Index s '':'' = int ?n"
    using True by (simp add: strings_Index_def strings_Index_from_char)
  have lt: "?n < length s"
    using True by (rule takeWhile_length_less)
  have pos: "0 < ?n \<longleftrightarrow> hd s \<noteq> CHR '':''"
    using True by (cases s) auto
  have tk: "take ?n s = takeWhile (\<lambda>c. c \<noteq> CHR '':'') s"
    by (rule take_takeWhile_length)
  have dr: "drop (Suc ?n) s = tl (dropWhile (\<lambda>c. c \<noteq> CHR '':'') s)"
    by (rule drop_takeWhile_length)
  show ?thesis
    using True lt pos tk dr by (simp add: colorop_def ci nat_add_distrib)
qed

lemma polyline_empty: "deckpolyline w [] [] col size' = Inl (IndexOutOfRange, w)"
  by (simp add: deckpolyline_def case_prod_unfold for_loop_done idx_def Fprintf_None)

section \<open>The adapters\<close>













text \<open>
  A read of \<open>Points\<close> outside the slice panics, here at the second point of a record that
  counts two points and holds one.
\<close>

lemma adapters_out_of_range_panic:
  "PolygonCoords dest \<lparr>NumParts = 1, NumPoints = 2, Parts = [0], Points = [p]\<rparr> g c =
     Inl (IndexOutOfRange, dest)"
  by (simp add: PolygonCoords_def wrap32_def for_loop.simps shape_part_def part_coords_def
      append_coord_def idx_def)

section \<open>Rounding and the arithmetic of \<^verbatim>\<open>float64\<close>\<close>

text \<open>
  Rounding is monotonic and odd, keeps the integers below \<open>2\<^sup>5\<^sup>3\<close>, and sends the difference
  of two distinct numbers of the format to a non-zero number.  A finite result of an
  operation is the rounded exact result of finite operands.
\<close>

lemma rhe_of_int: "rhe (of_int k) = k"
  by (simp add: rhe_def)

lemma rhe_mono: "t \<le> t' \<Longrightarrow> rhe t \<le> rhe t'"
proof -
  assume le: "t \<le> t'"
  have fl: "\<lfloor>t\<rfloor> \<le> \<lfloor>t'\<rfloor>" using le by (rule floor_mono)
  show ?thesis
  proof (cases "\<lfloor>t\<rfloor> = \<lfloor>t'\<rfloor>")
    case True
    then show ?thesis using le unfolding rhe_def Let_def by auto
  next
    case False
    then have "\<lfloor>t\<rfloor> + 1 \<le> \<lfloor>t'\<rfloor>" using fl by simp
    moreover have "rhe t \<le> \<lfloor>t\<rfloor> + 1" unfolding rhe_def Let_def by auto
    moreover have "\<lfloor>t'\<rfloor> \<le> rhe t'" unfolding rhe_def Let_def by auto
    ultimately show ?thesis by linarith
  qed
qed

lemma rhe_minus: "rhe (- t) = - rhe t"
proof (cases "t = of_int \<lfloor>t\<rfloor>")
  case True
  then obtain k where "t = of_int k" ..
  then show ?thesis
    by (metis of_int_minus rhe_of_int)
next
  case False
  then have fl: "\<lfloor>- t\<rfloor> = - \<lfloor>t\<rfloor> - 1"
    by (metis (no_types) ceiling_def ceiling_altdef add.inverse_inverse diff_minus_eq_add minus_add_cancel uminus_add_conv_diff)
  have d: "- t - of_int (- \<lfloor>t\<rfloor> - 1) = 1 - (t - of_int \<lfloor>t\<rfloor>)" by simp
  show ?thesis
    unfolding rhe_def Let_def fl d by auto
qed

lemma rhe_nonneg: "0 \<le> t \<Longrightarrow> 0 \<le> rhe t"
  using rhe_mono [of 0 t] rhe_of_int [of 0] by simp

lemma ulp_exp_ge: "- 1074 \<le> ulp_exp r"
  by (simp add: ulp_exp_def)

lemma ulp_exp_minus: "ulp_exp (- r) = ulp_exp r"
  by (simp add: ulp_exp_def)

lemma bitlen_mono: "a \<le> b \<Longrightarrow> bitlen a \<le> bitlen b"
  by (smt (verit) bitlen_le_iff_power bitlen_nonneg)

lemma ulp_exp_mono: "\<bar>r\<bar> \<le> \<bar>r'\<bar> \<Longrightarrow> ulp_exp r \<le> ulp_exp r'"
proof -
  assume "\<bar>r\<bar> \<le> \<bar>r'\<bar>"
  then have "\<lfloor>\<bar>r\<bar> * 2 ^ 1074\<rfloor> \<le> \<lfloor>\<bar>r'\<bar> * 2 ^ 1074\<rfloor>"
    by (intro floor_mono mult_right_mono) auto
  then show ?thesis
    unfolding ulp_exp_def using bitlen_mono by fastforce
qed

lemma ulp_exp_upper: "\<bar>r\<bar> < 2 powi (ulp_exp r + 53)"
proof -
  define N where "N = \<lfloor>\<bar>r\<bar> * 2 ^ 1074\<rfloor>"
  define e where "e = ulp_exp r"
  have "bitlen N \<le> e + 1127"
    by (simp add: e_def ulp_exp_def N_def)
  moreover have e0: "0 \<le> e + 1127" using ulp_exp_ge [of r] by (simp add: e_def)
  ultimately have "N < 2 ^ nat (e + 1127)"
    by (simp add: bitlen_le_iff_power)
  then have "\<bar>r\<bar> * 2 ^ 1074 < 2 ^ nat (e + 1127)"
    unfolding N_def by (metis floor_less_iff of_int_numeral of_int_power)
  also have "(2::real) ^ nat (e + 1127) = 2 powi (e + 1127)"
    using e0 by (simp add: power_int_nonneg_exp)
  also have "\<dots> = 2 powi (e + 53) * 2 ^ 1074"
    by (simp add: power_int_add)
  finally show ?thesis
    by (simp add: e_def)
qed

lemma ulp_exp_lower: "- 1074 < ulp_exp r \<Longrightarrow> 2 powi (ulp_exp r + 52) \<le> \<bar>r\<bar>"
proof -
  define N where "N = \<lfloor>\<bar>r\<bar> * 2 ^ 1074\<rfloor>"
  define e where "e = ulp_exp r"
  assume "- 1074 < ulp_exp r"
  then have b: "bitlen N = e + 1127" and e0: "0 \<le> e + 1126"
    by (auto simp: e_def ulp_exp_def N_def max_def split: if_splits)
  then have "e + 1127 \<le> bitlen N" by simp
  then have "2 ^ (nat (e + 1127) - 1) \<le> N"
    using e0 by (simp add: bitlen_ge_iff_power)
  moreover have "nat (e + 1127) - 1 = nat (e + 1126)" using e0 by arith
  ultimately have "2 ^ nat (e + 1126) \<le> N" by simp
  then have "(2::real) ^ nat (e + 1126) \<le> of_int N"
    by (metis of_int_le_iff of_int_numeral of_int_power)
  also have "of_int N \<le> \<bar>r\<bar> * 2 ^ 1074"
    by (simp add: N_def)
  finally have "(2::real) ^ nat (e + 1126) \<le> \<bar>r\<bar> * 2 ^ 1074" .
  moreover have "(2::real) ^ nat (e + 1126) = 2 powi (e + 52) * 2 ^ 1074"
    using e0 by (simp add: power_int_add flip: power_int_nonneg_exp)
  ultimately show ?thesis
    by (simp add: e_def)
qed

lemma round64_0: "round64 0 = 0"
  by (simp add: round64_def rhe_def)

lemma round64_minus: "round64 (- r) = - round64 r"
  by (simp add: round64_def ulp_exp_minus rhe_minus)

lemma pow2_pos: "0 < (2::real) powi e"
  by simp

lemma round64_nonneg: "0 \<le> r \<Longrightarrow> 0 \<le> round64 r"
  unfolding round64_def using pow2_pos [of "ulp_exp r"]
  by (intro mult_nonneg_nonneg) (auto intro!: rhe_nonneg simp: less_imp_le)

lemma round64_mono_pos:
  assumes "0 \<le> r" and "r \<le> r'"
  shows "round64 r \<le> round64 r'"
proof -
  define e where "e = ulp_exp r"
  define e' where "e' = ulp_exp r'"
  have ee: "e \<le> e'"
    unfolding e_def e'_def using assms by (intro ulp_exp_mono) auto
  show ?thesis
  proof (cases "e = e'")
    case True
    have "r / 2 powi e \<le> r' / 2 powi e"
      using assms pow2_pos [of e] by (simp add: divide_right_mono)
    then have "rhe (r / 2 powi e) \<le> rhe (r' / 2 powi e)"
      by (rule rhe_mono)
    then have "real_of_int (rhe (r / 2 powi e)) * 2 powi e \<le> real_of_int (rhe (r' / 2 powi e)) * 2 powi e"
      using pow2_pos [of e] by (simp add: mult_right_mono)
    then show ?thesis
      using True by (simp add: round64_def e_def e'_def)
  next
    case False
    then have lt: "e + 1 \<le> e'" using ee by simp
    have "r < 2 powi (e + 53)"
      using ulp_exp_upper [of r] assms(1) by (simp add: e_def)
    then have "r / 2 powi e < 2 powi (e + 53) / 2 powi e"
      using pow2_pos [of e] by (simp add: divide_strict_right_mono)
    also have "(2::real) powi (e + 53) / 2 powi e = 2 ^ 53"
      by (simp add: power_int_add)
    finally have "rhe (r / 2 powi e) \<le> rhe (of_int (2 ^ 53))"
      by (intro rhe_mono) simp
    then have "rhe (r / 2 powi e) \<le> 2 ^ 53"
      by (simp only: rhe_of_int)
    then have "of_int (rhe (r / 2 powi e)) \<le> (2::real) ^ 53"
      by (metis of_int_le_iff of_int_numeral of_int_power)
    then have "round64 r \<le> 2 ^ 53 * 2 powi e"
      using pow2_pos [of e] by (simp add: round64_def e_def mult_right_mono)
    also have "\<dots> = 2 powi (e + 53)"
      by (simp add: power_int_add)
    also have "\<dots> \<le> 2 powi (e' + 52)"
      using lt by (intro power_int_increasing) auto
    finally have up: "round64 r \<le> 2 powi (e' + 52)" .
    have "- 1074 < e'"
      using lt ulp_exp_ge [of r] by (simp add: e_def)
    then have "2 powi (e' + 52) \<le> \<bar>r'\<bar>"
      unfolding e'_def by (rule ulp_exp_lower)
    then have "2 powi (e' + 52) / 2 powi e' \<le> r' / 2 powi e'"
      using assms pow2_pos [of e'] by (simp add: divide_right_mono)
    moreover have "(2::real) powi (e' + 52) / 2 powi e' = of_int (2 ^ 52)"
      by (simp add: power_int_add)
    ultimately have "rhe (of_int (2 ^ 52)) \<le> rhe (r' / 2 powi e')"
      by (intro rhe_mono) simp
    then have "2 ^ 52 \<le> rhe (r' / 2 powi e')"
      by (simp only: rhe_of_int)
    then have "(2::real) ^ 52 \<le> of_int (rhe (r' / 2 powi e'))"
      by (metis of_int_le_iff of_int_numeral of_int_power)
    then have "2 ^ 52 * 2 powi e' \<le> round64 r'"
      using pow2_pos [of e'] by (simp add: round64_def e'_def mult_right_mono)
    moreover have "(2::real) ^ 52 * 2 powi e' = 2 powi (e' + 52)"
      by (simp add: power_int_add)
    ultimately show ?thesis using up by linarith
  qed
qed

lemma round64_mono: "r \<le> r' \<Longrightarrow> round64 r \<le> round64 r'"
proof -
  assume le: "r \<le> r'"
  consider "0 \<le> r" | "r < 0" "0 \<le> r'" | "r' < 0" by linarith
  then show ?thesis
  proof cases
    case 1
    then show ?thesis using le by (rule round64_mono_pos)
  next
    case 2
    have "round64 r = - round64 (- r)" by (simp add: round64_minus)
    moreover have "0 \<le> round64 (- r)" using 2 by (intro round64_nonneg) simp
    moreover have "0 \<le> round64 r'" using 2 by (intro round64_nonneg)
    ultimately show ?thesis by linarith
  next
    case 3
    have "round64 (- r') \<le> round64 (- r)"
      using 3 le by (intro round64_mono_pos) auto
    then show ?thesis by (simp add: round64_minus)
  qed
qed

lemma ulp_exp_binade:
  assumes "2 powi e' \<le> \<bar>r\<bar>" and "\<bar>r\<bar> < 2 powi (e' + 1)" and "- 1022 \<le> e'"
  shows "ulp_exp r = e' - 52"
proof -
  define e where "e = ulp_exp r"
  have "(2::real) powi e' < 2 powi (e + 53)"
    using assms(1) ulp_exp_upper [of r] by (simp add: e_def)
  then have lo: "e' - 52 \<le> e"
    by (smt (verit) power_int_increasing)
  have "e \<le> e' - 52"
  proof (cases "- 1074 < e")
    case True
    then have "(2::real) powi (e + 52) < 2 powi (e' + 1)"
      using ulp_exp_lower [of r] assms(2) by (simp add: e_def)
    then show ?thesis
      by (smt (verit) power_int_increasing)
  next
    case False
    then show ?thesis using assms(3) ulp_exp_ge [of r] by (simp add: e_def)
  qed
  then show ?thesis using lo by (simp add: e_def)
qed

lemma round64_binade:
  assumes "2 powi e' \<le> \<bar>r\<bar>" and "\<bar>r\<bar> < 2 powi (e' + 1)" and "- 1022 \<le> e'"
  shows "round64 r = of_int (rhe (r / 2 powi (e' - 52))) * 2 powi (e' - 52)"
  by (simp add: round64_def ulp_exp_binade [OF assms])

lemma fval_mk_float: "is_finite (mk_float neg r) \<Longrightarrow> fval (mk_float neg r) = round64 r"
  by (simp add: mk_float_def Let_def split: if_splits)

lemma mk_float_0: "mk_float neg 0 = (if neg then NegZero else Finite 0)"
  by (simp add: mk_float_def round64_0)

lemma fneg_finite: "is_finite (fneg a) = is_finite a" and fval_fneg: "fval (fneg a) = - fval a"
  by (cases a; simp)+

lemma fadd_finite:
  assumes "is_finite (fadd a b)"
  shows "is_finite a \<and> is_finite b \<and> fval (fadd a b) = round64 (fval a + fval b)"
  using assms
  by (cases a; cases b) (auto simp: Let_def mk_float_0 round64_0 fval_mk_float split: if_splits)

lemma fsub_finite:
  assumes "is_finite (fsub a b)"
  shows "is_finite a \<and> is_finite b \<and> fval (fsub a b) = round64 (fval a - fval b)"
  using fadd_finite [of a "fneg b"] assms by (simp add: fsub_def fneg_finite fval_fneg)

lemma fmul_finite:
  assumes "is_finite (fmul a b)"
  shows "is_finite a \<and> is_finite b \<and> fval (fmul a b) = round64 (fval a * fval b)"
  using assms
  by (cases a; cases b) (auto simp: fval_mk_float split: if_splits)

lemma fdiv_finite:
  assumes "is_finite (fdiv a b)"
  shows "is_finite a \<and>
         (if is_finite b then fval b \<noteq> 0 \<and> fval (fdiv a b) = round64 (fval a / fval b)
          else fval (fdiv a b) = 0)"
  using assms
  by (cases a; cases b) (auto simp: fval_mk_float mk_float_0 round64_0 split: if_splits)

lemma pow2_split: "(2::real) powi e = 2 powi (e + m) * 2 powi (- m)"
  by (simp flip: power_int_add)

lemma round64_grid: "\<exists>k::int. round64 r = of_int k * 2 powi (- 1074)"
proof -
  define e where "e = ulp_exp r"
  have e0: "0 \<le> e + 1074" using ulp_exp_ge [of r] by (simp add: e_def)
  have "(2::real) powi e = 2 powi (e + 1074) * 2 powi (- 1074)"
    by (rule pow2_split)
  also have "(2::real) powi (e + 1074) = of_int (2 ^ nat (e + 1074))"
    using e0 by (simp add: power_int_nonneg_exp)
  finally have "round64 r = of_int (rhe (r / 2 powi e) * 2 ^ nat (e + 1074)) * 2 powi (- 1074)"
    by (simp add: round64_def e_def)
  then show ?thesis ..
qed

lemma round64_pos: "2 powi (- 1074) \<le> x \<Longrightarrow> 0 < round64 x"
proof -
  assume x: "2 powi (- 1074) \<le> x"
  define e where "e = ulp_exp x"
  have xpos: "0 < x" using x pow2_pos [of "- 1074"] by linarith
  have "2 powi e \<le> x"
  proof (cases "- 1074 < e")
    case True
    then have "2 powi (e + 52) \<le> \<bar>x\<bar>" unfolding e_def by (rule ulp_exp_lower)
    moreover have "(2::real) powi e \<le> 2 powi (e + 52)"
      by (intro power_int_increasing) auto
    ultimately show ?thesis using xpos by simp
  next
    case False
    then have "e = - 1074" using ulp_exp_ge [of x] by (simp add: e_def)
    then show ?thesis using x by simp
  qed
  then have "1 \<le> x / 2 powi e"
    using pow2_pos [of e] by (simp add: pos_le_divide_eq)
  then have "rhe (of_int 1) \<le> rhe (x / 2 powi e)"
    by (intro rhe_mono) simp
  then have "1 \<le> rhe (x / 2 powi e)"
    by (simp only: rhe_of_int)
  then have "0 < real_of_int (rhe (x / 2 powi e))" by simp
  then show ?thesis
    using pow2_pos [of e] by (simp add: round64_def e_def)
qed

lemma round64_diff_nonzero:
  assumes "is_float64 a" and "is_float64 b" and "a \<noteq> b"
  shows "round64 (a - b) \<noteq> 0"
proof -
  obtain ka :: int where ka: "a = of_int ka * 2 powi (- 1074)"
    using round64_grid [of a] assms(1) by (auto simp: is_float64_def)
  obtain kb :: int where kb: "b = of_int kb * 2 powi (- 1074)"
    using round64_grid [of b] assms(2) by (auto simp: is_float64_def)
  have d: "a - b = of_int (ka - kb) * 2 powi (- 1074)"
    by (simp add: ka kb algebra_simps)
  have "ka \<noteq> kb" using assms(3) ka kb by auto
  then consider "1 \<le> ka - kb" | "1 \<le> kb - ka" by linarith
  then show ?thesis
  proof cases
    case 1
    then have "1 * 2 powi (- 1074) \<le> real_of_int (ka - kb) * 2 powi (- 1074)"
      using pow2_pos [of "- 1074"] by (intro mult_right_mono) (simp_all add: less_imp_le)
    then have "0 < round64 (a - b)"
      unfolding d by (intro round64_pos) simp
    then show ?thesis by simp
  next
    case 2
    then have "1 * 2 powi (- 1074) \<le> real_of_int (kb - ka) * 2 powi (- 1074)"
      using pow2_pos [of "- 1074"] by (intro mult_right_mono) (simp_all add: less_imp_le)
    moreover have "b - a = of_int (kb - ka) * 2 powi (- 1074)"
      by (simp add: ka kb algebra_simps)
    ultimately have "0 < round64 (b - a)"
      by (intro round64_pos) simp
    moreover have "round64 (a - b) = - round64 (b - a)"
      using round64_minus [of "b - a"] by simp
    ultimately show ?thesis by simp
  qed
qed

lemma fsub_self: "is_finite a \<Longrightarrow> fsub a a = Finite 0"
  by (cases a) (auto simp: fsub_def mk_float_0)

lemma fmul_zero: "is_finite d \<Longrightarrow> is_finite (fmul d (Finite 0)) \<and> fval (fmul d (Finite 0)) = 0"
  by (cases d) (auto simp: mk_float_0)

lemma fsub_nonzero:
  assumes "finite_float64 a" and "finite_float64 b" and "fval a \<noteq> fval b"
  shows "(\<exists>s. fsub a b = Inf s) \<or> (is_finite (fsub a b) \<and> fval (fsub a b) \<noteq> 0)"
proof -
  have nz: "round64 (fval a - fval b) \<noteq> 0"
    using assms by (intro round64_diff_nonzero) (auto simp: finite_float64_def)
  have "fsub a b = mk_float (fval a - fval b < 0) (fval a - fval b)"
    using assms by (cases a; cases b) (auto simp: fsub_def finite_float64_def)
  then show ?thesis
    using nz by (auto simp: mk_float_def Let_def)
qed

lemma fdiv_zero:
  assumes "is_finite p" and "fval p = 0"
    and "(\<exists>s. q = Inf s) \<or> (is_finite q \<and> fval q \<noteq> 0)"
  shows "is_finite (fdiv p q) \<and> fval (fdiv p q) = 0"
  using assms by (cases p; cases q) (auto simp: mk_float_0)

lemma fadd_zero:
  assumes "finite_float64 a" and "is_finite z" and "fval z = 0"
  shows "feq (fadd a z) a"
proof (cases "fval a = 0")
  case True
  then show ?thesis
    using assms by (cases a; cases z) (auto simp: mk_float_0 finite_float64_def)
next
  case False
  then obtain r where a: "a = Finite r" and r: "r \<noteq> 0" "round64 r = r" "\<bar>r\<bar> < 2 ^ 1024"
    using assms(1) by (cases a) (auto simp: finite_float64_def is_float64_def)
  have "fadd a z = mk_float (r < 0) r"
    using assms(2,3) r(1) by (cases z) (auto simp: a)
  then show ?thesis
    using r by (simp add: mk_float_def a)
qed

lemma vmap_lower_endpoint:
  assumes "finite_float64 l1" and "finite_float64 h1" and "finite_float64 l2"
    and "\<not> feq l1 h1" and "is_finite (fsub h2 l2)"
  shows "feq (vmap l1 l1 h1 l2 h2) l2"
proof -
  have fin: "is_finite l1" "is_finite h1"
    using assms by (auto simp: finite_float64_def)
  then have ne: "fval h1 \<noteq> fval l1"
    using assms(4) by (cases l1; cases h1) auto
  have t: "fsub l1 l1 = Finite 0" using fin by (simp add: fsub_self)
  have p: "is_finite (fmul (fsub h2 l2) (Finite 0)) \<and> fval (fmul (fsub h2 l2) (Finite 0)) = 0"
    using assms(5) by (rule fmul_zero)
  have s: "(\<exists>s. fsub h1 l1 = Inf s) \<or> (is_finite (fsub h1 l1) \<and> fval (fsub h1 l1) \<noteq> 0)"
    using assms(2,1) ne by (rule fsub_nonzero)
  have q: "is_finite (fdiv (fmul (fsub h2 l2) (Finite 0)) (fsub h1 l1)) \<and>
           fval (fdiv (fmul (fsub h2 l2) (Finite 0)) (fsub h1 l1)) = 0"
    using p s by (intro fdiv_zero) auto
  show ?thesis
    unfolding vmap_def t using assms(3) q by (intro fadd_zero) auto
qed

lemma fle_finite: "is_finite a \<Longrightarrow> is_finite b \<Longrightarrow> fle a b = (fval a \<le> fval b)"
  by (cases a; cases b) auto

lemma mono_core:
  assumes "t \<le> t'" and "(0 \<le> d \<and> 0 < s) \<or> (d \<le> 0 \<and> s < 0)"
  shows "round64 (l + round64 (round64 (d * t) / s)) \<le> round64 (l + round64 (round64 (d * t') / s))"
proof -
  have "round64 (d * t) / s \<le> round64 (d * t') / s"
  proof (cases "0 < s")
    case True
    then have "d * t \<le> d * t'" using assms by (auto intro: mult_left_mono)
    then have "round64 (d * t) \<le> round64 (d * t')" by (rule round64_mono)
    then show ?thesis using True by (simp add: divide_right_mono)
  next
    case False
    then have s: "s < 0" and "d \<le> 0" using assms(2) by auto
    then have "d * t' \<le> d * t" using assms(1) by (auto intro: mult_left_mono_neg)
    then have "round64 (d * t') \<le> round64 (d * t)" by (rule round64_mono)
    then show ?thesis using s by (simp add: divide_right_mono_neg)
  qed
  then have "round64 (round64 (d * t) / s) \<le> round64 (round64 (d * t') / s)"
    by (rule round64_mono)
  then show ?thesis by (intro round64_mono) simp
qed

lemma anti_core:
  assumes "t \<le> t'" and "(d \<le> 0 \<and> 0 < s) \<or> (0 \<le> d \<and> s < 0)"
  shows "round64 (l + round64 (round64 (d * t') / s)) \<le> round64 (l + round64 (round64 (d * t) / s))"
proof -
  have "round64 (d * t') / s \<le> round64 (d * t) / s"
  proof (cases "0 < s")
    case True
    then have "d * t' \<le> d * t" using assms by (auto intro: mult_left_mono_neg)
    then have "round64 (d * t') \<le> round64 (d * t)" by (rule round64_mono)
    then show ?thesis using True by (simp add: divide_right_mono)
  next
    case False
    then have s: "s < 0" and "0 \<le> d" using assms(2) by auto
    then have "d * t \<le> d * t'" using assms(1) by (auto intro: mult_left_mono)
    then have "round64 (d * t) \<le> round64 (d * t')" by (rule round64_mono)
    then show ?thesis using s by (simp add: divide_right_mono_neg)
  qed
  then have "round64 (round64 (d * t') / s) \<le> round64 (round64 (d * t) / s)"
    by (rule round64_mono)
  then show ?thesis by (intro round64_mono) simp
qed

lemma vmap_value:
  assumes "is_finite (vmap v l1 h1 l2 h2)"
  shows "is_finite v \<and> is_finite l1 \<and> is_finite l2 \<and> is_finite h2 \<and>
         fval (vmap v l1 h1 l2 h2) =
           round64 (fval l2 +
             (if is_finite (fsub h1 l1)
              then round64 (round64 (round64 (fval h2 - fval l2) * round64 (fval v - fval l1)) /
                            fval (fsub h1 l1))
              else 0)) \<and>
         (is_finite (fsub h1 l1) \<longrightarrow>
            fval (fsub h1 l1) \<noteq> 0 \<and> fval (fsub h1 l1) = round64 (fval h1 - fval l1))"
proof -
  let ?D = "fsub h2 l2" and ?T = "fsub v l1" and ?S = "fsub h1 l1"
  let ?P = "fmul ?D ?T"
  let ?X = "fdiv ?P ?S"
  have r: "is_finite l2" "is_finite ?X" "fval (vmap v l1 h1 l2 h2) = round64 (fval l2 + fval ?X)"
    using fadd_finite [of l2 ?X] assms by (simp_all add: vmap_def)
  have x: "is_finite ?P"
    "if is_finite ?S then fval ?S \<noteq> 0 \<and> fval ?X = round64 (fval ?P / fval ?S) else fval ?X = 0"
    using fdiv_finite [OF r(2)] by simp_all
  have p: "is_finite ?D" "is_finite ?T" "fval ?P = round64 (fval ?D * fval ?T)"
    using fmul_finite [OF x(1)] by simp_all
  have d: "is_finite h2" "fval ?D = round64 (fval h2 - fval l2)"
    using fsub_finite [OF p(1)] by simp_all
  have t: "is_finite v" "is_finite l1" "fval ?T = round64 (fval v - fval l1)"
    using fsub_finite [OF p(2)] by simp_all
  have s: "fval ?S = round64 (fval h1 - fval l1)" if "is_finite ?S"
    using fsub_finite [OF that] by simp
  show ?thesis
    using r x p d t s by (simp split: if_splits)
qed

lemma round64_int: "\<bar>k\<bar> < 2 ^ 53 \<Longrightarrow> round64 (of_int k) = of_int k"
proof -
  assume k: "\<bar>k\<bar> < 2 ^ 53"
  define e where "e = ulp_exp (of_int k)"
  have "e \<le> 0"
  proof (rule ccontr)
    assume "\<not> e \<le> 0"
    then have e: "0 < e" by simp
    then have "2 powi (e + 52) \<le> \<bar>real_of_int k\<bar>"
      unfolding e_def by (intro ulp_exp_lower) simp
    moreover have "(2::real) powi 53 \<le> 2 powi (e + 52)"
      using e by (intro power_int_increasing) auto
    moreover have "\<bar>real_of_int k\<bar> < 2 ^ 53"
      using k by (metis of_int_abs of_int_less_iff of_int_numeral of_int_power)
    ultimately show False by simp
  qed
  then have "(2::real) powi e = 1 / of_int (2 ^ nat (- e))"
    by (simp add: power_int_def inverse_eq_divide power_one_over)
  then have "real_of_int k / 2 powi e = of_int (k * 2 ^ nat (- e))"
    and "of_int (k * 2 ^ nat (- e)) * 2 powi e = real_of_int k"
    by simp_all
  then show ?thesis
    unfolding round64_def e_def [symmetric] by (simp only: rhe_of_int)
qed

lemma round64_numeral: "numeral n < (2::int) ^ 53 \<Longrightarrow> round64 (numeral n) = numeral n"
  using round64_int [of "numeral n"] by simp

lemma vmap_monotone:
  assumes va: "is_finite (vmap v l1 h1 l2 h2)" and vb: "is_finite (vmap v' l1 h1 l2 h2)"
    and le: "fle v v'" and h1: "is_finite h1"
  shows "((fle l1 h1 \<longleftrightarrow> fle l2 h2) \<longrightarrow> fle (vmap v l1 h1 l2 h2) (vmap v' l1 h1 l2 h2)) \<and>
         ((fle l1 h1 \<longleftrightarrow> fle h2 l2) \<longrightarrow> fle (vmap v' l1 h1 l2 h2) (vmap v l1 h1 l2 h2))"
proof -
  note a = vmap_value [OF va] and b = vmap_value [OF vb]
  define d where "d = round64 (fval h2 - fval l2)"
  define s where "s = fval (fsub h1 l1)"
  define t where "t = round64 (fval v - fval l1)"
  define t' where "t' = round64 (fval v' - fval l1)"
  have fin: "is_finite v" "is_finite v'" "is_finite l1" "is_finite l2" "is_finite h2"
    using a b by simp_all
  have tt: "t \<le> t'"
    unfolding t_def t'_def using le fin by (intro round64_mono) (simp add: fle_finite)
  have fl: "fle (vmap v l1 h1 l2 h2) (vmap v' l1 h1 l2 h2) =
              (fval (vmap v l1 h1 l2 h2) \<le> fval (vmap v' l1 h1 l2 h2))"
    "fle (vmap v' l1 h1 l2 h2) (vmap v l1 h1 l2 h2) =
              (fval (vmap v' l1 h1 l2 h2) \<le> fval (vmap v l1 h1 l2 h2))"
    using va vb by (simp_all add: fle_finite)
  show ?thesis
  proof (cases "is_finite (fsub h1 l1)")
    case False
    then show ?thesis using a b by (simp add: fl)
  next
    case True
    then have s0: "s \<noteq> 0" and sv: "s = round64 (fval h1 - fval l1)"
      using a by (simp_all add: s_def)
    have ra: "fval (vmap v l1 h1 l2 h2) = round64 (fval l2 + round64 (round64 (d * t) / s))"
      and rb: "fval (vmap v' l1 h1 l2 h2) = round64 (fval l2 + round64 (round64 (d * t') / s))"
      using a b True by (simp_all add: d_def s_def t_def t'_def)
    have s_pos: "0 < s" if "fval l1 \<le> fval h1"
    proof -
      have "round64 0 \<le> round64 (fval h1 - fval l1)" using that by (intro round64_mono) simp
      then show ?thesis using s0 by (simp add: sv round64_0)
    qed
    have s_neg: "s < 0" if "\<not> fval l1 \<le> fval h1"
    proof -
      have "round64 (fval h1 - fval l1) \<le> round64 0" using that by (intro round64_mono) simp
      then show ?thesis using s0 by (simp add: sv round64_0)
    qed
    have d_pos: "0 \<le> d" if "fval l2 \<le> fval h2"
      using round64_mono [of 0 "fval h2 - fval l2"] that by (simp add: d_def round64_0)
    have d_neg: "d \<le> 0" if "fval h2 \<le> fval l2"
      using round64_mono [of "fval h2 - fval l2" 0] that by (simp add: d_def round64_0)
    have f: "fle l1 h1 = (fval l1 \<le> fval h1)" "fle l2 h2 = (fval l2 \<le> fval h2)"
      "fle h2 l2 = (fval h2 \<le> fval l2)"
      using fin h1 by (simp_all add: fle_finite)
    have up: "fval (vmap v l1 h1 l2 h2) \<le> fval (vmap v' l1 h1 l2 h2)"
      if "fval l1 \<le> fval h1 \<longleftrightarrow> fval l2 \<le> fval h2"
      unfolding ra rb using tt
    proof (rule mono_core)
      show "(0 \<le> d \<and> 0 < s) \<or> (d \<le> 0 \<and> s < 0)"
        using that s_pos s_neg d_pos d_neg by (cases "fval l1 \<le> fval h1") auto
    qed
    have down: "fval (vmap v' l1 h1 l2 h2) \<le> fval (vmap v l1 h1 l2 h2)"
      if "fval l1 \<le> fval h1 \<longleftrightarrow> fval h2 \<le> fval l2"
      unfolding ra rb using tt
    proof (rule anti_core)
      show "(d \<le> 0 \<and> 0 < s) \<or> (0 \<le> d \<and> s < 0)"
        using that s_pos s_neg d_pos d_neg by (cases "fval l1 \<le> fval h1") auto
    qed
    show ?thesis
      using up down by (simp add: fl f)
  qed
qed

lemma mk_float_exact:
  "is_float64 r \<Longrightarrow> is_finite (mk_float neg r) \<and> fval (mk_float neg r) = r"
  by (simp add: is_float64_def mk_float_def)

lemma feq_finite: "is_finite a \<Longrightarrow> is_finite b \<Longrightarrow> feq a b = (fval a = fval b)"
  by (cases a; cases b) auto

lemma is_float64_0: "is_float64 0"
  by (simp add: is_float64_def round64_0)

lemma fadd_exact:
  assumes "is_finite a" and "is_finite b" and "is_float64 (fval a + fval b)"
  shows "is_finite (fadd a b) \<and> fval (fadd a b) = fval a + fval b"
  using assms mk_float_exact [OF assms(3)] mk_float_exact [OF is_float64_0]
  by (cases a; cases b) (auto simp: Let_def)

lemma fsub_exact:
  assumes "is_finite a" and "is_finite b" and "is_float64 (fval a - fval b)"
  shows "is_finite (fsub a b) \<and> fval (fsub a b) = fval a - fval b"
  using fadd_exact [of a "fneg b"] assms by (simp add: fsub_def fneg_finite fval_fneg)

lemma fmul_exact:
  assumes "is_finite a" and "is_finite b" and "is_float64 (fval a * fval b)"
  shows "is_finite (fmul a b) \<and> fval (fmul a b) = fval a * fval b"
  using assms mk_float_exact [OF assms(3)]
  by (cases a; cases b) auto

lemma fdiv_exact:
  assumes "is_finite a" and "is_finite b" and "fval b \<noteq> 0" and "is_float64 (fval a / fval b)"
  shows "is_finite (fdiv a b) \<and> fval (fdiv a b) = fval a / fval b"
  using assms mk_float_exact [OF assms(4)]
  by (cases a; cases b) auto

lemma vmap_upper_endpoint:
  assumes "finite_float64 l1" and "finite_float64 h1" and "finite_float64 l2"
    and "finite_float64 h2" and "\<not> feq l1 h1"
    and d: "is_float64 (fval h2 - fval l2)" and s: "is_float64 (fval h1 - fval l1)"
    and p: "is_float64 ((fval h2 - fval l2) * (fval h1 - fval l1))"
  shows "feq (vmap h1 l1 h1 l2 h2) h2"
proof -
  have fin: "is_finite l1" "is_finite h1" "is_finite l2" "is_finite h2"
    and h2: "is_float64 (fval h2)"
    using assms by (auto simp: finite_float64_def)
  have ne: "fval h1 - fval l1 \<noteq> 0"
    using assms(5) fin by (simp add: feq_finite)
  note D = fsub_exact [OF fin(4) fin(3) d]
  note S = fsub_exact [OF fin(2) fin(1) s]
  have P: "is_finite (fmul (fsub h2 l2) (fsub h1 l1)) \<and>
           fval (fmul (fsub h2 l2) (fsub h1 l1)) = (fval h2 - fval l2) * (fval h1 - fval l1)"
    using fmul_exact [of "fsub h2 l2" "fsub h1 l1"] D S p by simp
  have X: "is_finite (fdiv (fmul (fsub h2 l2) (fsub h1 l1)) (fsub h1 l1)) \<and>
           fval (fdiv (fmul (fsub h2 l2) (fsub h1 l1)) (fsub h1 l1)) = fval h2 - fval l2"
    using fdiv_exact [of "fmul (fsub h2 l2) (fsub h1 l1)" "fsub h1 l1"] P S ne d by simp
  have "is_finite (vmap h1 l1 h1 l2 h2) \<and> fval (vmap h1 l1 h1 l2 h2) = fval h2"
    unfolding vmap_def
    using fadd_exact [of l2 "fdiv (fmul (fsub h2 l2) (fsub h1 l1)) (fsub h1 l1)"] X fin(3) h2
    by simp
  then show ?thesis
    using fin(4) by (simp add: feq_finite)
qed

text \<open>
  The guards cannot be dropped.  When \<open>dstHigh - dstLow\<close> overflows, the lower endpoint is
  mapped to a NaN; and a value whose distance from \<open>srcLow\<close> overflows is mapped to a NaN
  where a smaller value is mapped to a number, so that the two results do not compare.
\<close>

lemma vmap_guards_needed:
  "vmap (Finite 0) (Finite 0) (Finite 1) (Finite (- (2 ^ 1023))) (Finite (2 ^ 1023)) = NaN \<and>
   vmap (Finite 0) (Finite (- (2 ^ 1023))) (Finite 0) (Finite 0) (Finite 0) = Finite 0 \<and>
   vmap (Finite (2 ^ 1023)) (Finite (- (2 ^ 1023))) (Finite 0) (Finite 0) (Finite 0) = NaN"
proof -
  define m :: real where "m = 2 ^ 1023"
  have m0: "0 < m" "m \<noteq> 0" "\<not> m < 0" "m + m \<noteq> 0" by (simp_all add: m_def)
  have rm: "round64 m = m" unfolding m_def
    by (subst round64_binade [of 1023]) (simp_all add: rhe_def)
  define M :: real where "M = 2 ^ 1024"
  have r2m: "round64 (2 * m) = M" unfolding m_def M_def
    by (subst round64_binade [of 1024]) (simp_all add: rhe_def)
  have M0: "0 < M" "2 ^ 1024 \<le> M" by (simp_all add: M_def)
  have mlt: "\<bar>m\<bar> < 2 ^ 1024" by (simp add: m_def)
  have over: "fadd (Finite m) (Finite m) = Inf False"
    using m0 M0 by (simp add: mk_float_def r2m Let_def)
  have up: "fadd (Finite 0) (Finite m) = Finite m"
    using m0 mlt by (simp add: mk_float_def rm Let_def)
  have ng: "fneg (Finite (- m)) = Finite m"
    using m0 by simp
  have d: "fsub (Finite m) (Finite (- m)) = Inf False"
    by (simp only: fsub_def ng over)
  have t: "fsub (Finite 0) (Finite (- m)) = Finite m"
    by (simp only: fsub_def ng up)
  have z: "fsub (Finite 0) (Finite 0) = Finite 0" "fsub (Finite 1) (Finite 0) = Finite 1"
    by (simp_all add: fsub_def mk_float_def round64_0 round64_int [of 1, simplified])
  have p: "fmul (Finite 0) (Finite m) = Finite 0" "fdiv (Finite 0) (Finite m) = Finite 0"
    "fadd (Finite 0) (Finite 0) = Finite 0"
    using m0 by (simp_all add: mk_float_0)
  have a: "vmap (Finite 0) (Finite 0) (Finite 1) (Finite (- m)) (Finite m) = NaN"
    by (simp only: vmap_def d z) simp
  have b: "vmap (Finite 0) (Finite (- m)) (Finite 0) (Finite 0) (Finite 0) = Finite 0"
    by (simp only: vmap_def t z p)
  have c: "vmap (Finite m) (Finite (- m)) (Finite 0) (Finite 0) (Finite 0) = NaN"
    by (simp only: vmap_def d t z) simp
  show ?thesis
    using a b c unfolding m_def by simp
qed

section \<open>The claims\<close>

text \<open>
  C1. The claim: for equal-length \<open>x\<close>, \<open>y\<close> with at least three elements the polygon
  emitter writes one polygon element whose \<open>xc\<close> and \<open>yc\<close> list exactly \<open>x[0..n-1]\<close> and
  \<open>y[0..n-1]\<close>, with no duplicated vertex; on \<open>x = [0,1,1]\<close>, \<open>y = [0,0,1]\<close>, colour
  \<^verbatim>\<open>blue:80\<close> it writes three values in each attribute.  The program does not do that:
  the loop over \<open>1 \<le> i < nc\<close> already prints the last coordinate, and the statement after
  it prints \<open>x[end]\<close> once more (\<open>deckpolygon_ok\<close> gives the output for every input).  At
  the input of the claim each attribute holds four values.
\<close>

theorem deckpolygon_repeats_last_vertex:
  \<open>deckpolygon [] [Finite 0, Finite 1, Finite 1] [Finite 0, Finite 0, Finite 1] ''blue:80'' =
   Inr ''<polygon color="blue" opacity="80" xc="0.00000 1.00000 1.00000 1.00000" yc="0.00000 0.00000 1.00000 1.00000"/>\<newline>''\<close>
  by (simp add: deckpolygon_ok polygon_markup_def spaced_def colorop_split fmt_eval)

text \<open>
  C2. The claim: every ellipse element has its attributes \<open>xp\<close>, \<open>yp\<close>, \<open>hr="100"\<close>, \<open>color\<close>,
  \<open>opacity\<close>, \<open>wp\<close> each separated from the next by a space.  The format \<open>dotfmt\<close> has no
  space between \<open>hr="100"\<close> and \<open>color\<close>, unlike \<open>linefmt\<close>, so neither the dot emitter nor
  the point adapter writes that space.
\<close>

theorem dot_element_missing_space:
  \<open>deckdot [] [Finite 0] [Finite 0] ''red'' (Finite 1) =
     Inr ''<ellipse xp="0.0000000" yp="0.0000000" hr="100"color="red" opacity="100" wp="1.000"/>\<newline>'' \<and>
   PointCoords dest p g c =
     dest @ ''<ellipse xp="'' @ fmt_f 7 (vmap (X p) (Longmin g) (Longmax g) (Xmin g) (Xmax g)) @
     ''" yp="'' @ fmt_f 7 (vmap (Y p) (Latmin g) (Latmax g) (Ymin g) (Ymax g)) @
     ''" hr="100"color='' @ fmt_q (fst (colorop (color c))) @
     '' opacity='' @ fmt_q (snd (colorop (color c))) @
     '' wp="'' @ fmt_f 3 (shapesize c) @ ''"/>\<newline>''\<close>
  by (simp add: deckdot_ok dot_markup_def dotfmt_def PointCoords_def case_prod_unfold
      colorop_split fmt_eval)

text \<open>
  C3. For equal-length \<open>x\<close>, \<open>y\<close> with \<open>n \<ge> 2\<close> elements the line emitter writes exactly \<open>n\<close>
  line elements: the \<open>n - 1\<close> segments from point \<open>i\<close> to point \<open>i + 1\<close> in input order, then
  the closing segment from point \<open>0\<close> to point \<open>n - 1\<close>.
\<close>

theorem deckpolyline_closed_loop:
  assumes "length x = length y" and "2 \<le> length x"
  shows "deckpolyline w x y col size' =
           Inr (w @ concat (line_segments x y col size' @ [closing_segment x y col size'])) \<and>
         length (line_segments x y col size') = length x - 1 \<and>
         length (line_segments x y col size' @ [closing_segment x y col size']) = length x \<and>
         (\<forall>i < length x - 1. line_segments x y col size' ! i =
            linefmt (x ! i, y ! i, x ! (i + 1), y ! (i + 1),
                     fst (colorop col), snd (colorop col), size')) \<and>
         closing_segment x y col size' =
            linefmt (x ! 0, y ! 0, x ! (length x - 1), y ! (length x - 1),
                     fst (colorop col), snd (colorop col), size')"
proof -
  have "x \<noteq> []" and "length x \<le> length y"
    using assms by auto
  then have "deckpolyline w x y col size' =
      Inr (w @ concat (line_segments x y col size') @ closing_segment x y col size')"
    by (rule deckpolyline_ok)
  moreover have "length (line_segments x y col size') = length x - 1"
    by (simp add: line_segments_def)
  ultimately show ?thesis
    using assms(2) by (simp add: line_segments_def closing_segment_def)
qed

theorem deckpolyline_closed_loop_witness:
  "deckpolyline [] [Finite 0, Finite 1, Finite 2] [Finite 0, Finite 0, Finite 0] ''red'' (Finite 1) =
     Inr (linefmt (Finite 0, Finite 0, Finite 1, Finite 0, ''red'', ''100'', Finite 1) @
          linefmt (Finite 1, Finite 0, Finite 2, Finite 0, ''red'', ''100'', Finite 1) @
          linefmt (Finite 0, Finite 0, Finite 2, Finite 0, ''red'', ''100'', Finite 1)) \<and>
   length (line_segments [Finite 0, Finite 1, Finite 2] [Finite 0, Finite 0, Finite 0]
             ''red'' (Finite 1)) = 2"
  using deckpolyline_closed_loop
    [of "[Finite 0, Finite 1, Finite 2]" "[Finite 0, Finite 0, Finite 0]" "[]" "''red''" "Finite 1"]
  by (simp add: line_segments_def closing_segment_def colorop_split)

text \<open>
  C4. The claim: for \<open>srcLow \<noteq> srcHigh\<close> the mapper computes
  \<open>dstLow + (dstHigh - dstLow) * (value - srcLow) / (srcHigh - srcLow)\<close>, maps both endpoints
  exactly and is monotonic in \<open>value\<close>.  The program computes the formula on \<^verbatim>\<open>float64\<close>,
  where every operation rounds, and the upper endpoint is not always reached exactly: with
  the source interval \<open>[0, 3]\<close> and the destination interval from \<open>0\<close> to the \<^verbatim>\<open>float64\<close>
  nearest to \<open>0.1\<close>, the product \<open>0.1 * 3\<close> rounds up, and \<open>srcHigh = 3\<close> is mapped to the next
  \<^verbatim>\<open>float64\<close> above \<open>dstHigh\<close>.
\<close>

theorem vmap_upper_endpoint_counterexample:
  "is_float64 3 \<and> is_float64 0 \<and> is_float64 (3602879701896397 / 2 ^ 55) \<and>
   \<not> feq (Finite 0) (Finite 3) \<and>
   vmap (Finite 3) (Finite 0) (Finite 3) (Finite 0) (Finite (3602879701896397 / 2 ^ 55)) =
     Finite (7205759403792795 / 2 ^ 56) \<and>
   \<not> feq (vmap (Finite 3) (Finite 0) (Finite 3) (Finite 0) (Finite (3602879701896397 / 2 ^ 55)))
          (Finite (3602879701896397 / 2 ^ 55))"
proof -
  define h :: real where "h = 3602879701896397 / 2 ^ 55"
  define p :: real where "p = 1351079888211149 / 2 ^ 52"
  define q :: real where "q = 7205759403792795 / 2 ^ 56"
  have r3: "round64 3 = 3"
    by (subst round64_binade [of 1]) (simp_all add: rhe_def)
  have rh: "round64 h = h" unfolding h_def
    by (subst round64_binade [of "- 4"]) (simp_all add: rhe_def)
  have rp: "round64 (h * 3) = p" unfolding h_def p_def
    by (subst round64_binade [of "- 2"]) (simp_all add: rhe_def)
  have rq: "round64 (p / 3) = q" unfolding p_def q_def
    by (subst round64_binade [of "- 4"]) (simp_all add: rhe_def)
  have rr: "round64 q = q" unfolding q_def
    by (subst round64_binade [of "- 4"]) (simp_all add: rhe_def)
  have b: "0 < h" "h < 1" "0 < p" "p < 1" "0 < q" "q < 1" "q \<noteq> h"
    by (simp_all add: h_def p_def q_def)
  have big: "(1::real) \<le> 2 ^ 1024" "(3::real) < 2 ^ 1024" by simp_all
  have lt: "\<bar>h\<bar> < 2 ^ 1024" "\<bar>p\<bar> < 2 ^ 1024" "\<bar>q\<bar> < 2 ^ 1024"
    using b big by linarith+
  have d: "fsub (Finite h) (Finite 0) = Finite h"
    using b lt by (simp add: fsub_def mk_float_def rh)
  have t: "fsub (Finite 3) (Finite 0) = Finite 3"
    by (simp add: fsub_def mk_float_def r3)
  have m: "fmul (Finite h) (Finite 3) = Finite p"
    using b lt by (simp add: mk_float_def rp)
  have x: "fdiv (Finite p) (Finite 3) = Finite q"
    using b lt by (simp add: mk_float_def rq)
  have a: "fadd (Finite 0) (Finite q) = Finite q"
    using b lt by (simp add: mk_float_def rr)
  have v: "vmap (Finite 3) (Finite 0) (Finite 3) (Finite 0) (Finite h) = Finite q"
    by (simp only: vmap_def d t m x a)
  have "is_float64 3 \<and> is_float64 0 \<and> is_float64 h \<and> \<not> feq (Finite 0) (Finite 3) \<and>
        vmap (Finite 3) (Finite 0) (Finite 3) (Finite 0) (Finite h) = Finite q \<and>
        \<not> feq (vmap (Finite 3) (Finite 0) (Finite 3) (Finite 0) (Finite h)) (Finite h)"
    using b lt by (simp add: v is_float64_def r3 rh round64_0)
  then show ?thesis
    unfolding h_def q_def .
qed

text \<open>
  C4, as amended: for finite \<^verbatim>\<open>float64\<close> arguments with \<open>srcLow \<noteq> srcHigh\<close> the mapper
  computes the formula in \<^verbatim>\<open>float64\<close> arithmetic: its result, when finite and when
  \<open>srcHigh - srcLow\<close> does not overflow, is the value of
  \<open>dstLow + (dstHigh - dstLow) * (value - srcLow) / (srcHigh - srcLow)\<close> with the result of
  each of the five operations rounded to the nearest \<^verbatim>\<open>float64\<close>.  It maps \<open>srcLow\<close> exactly
  to \<open>dstLow\<close> whenever \<open>dstHigh - dstLow\<close> does not overflow.  It maps \<open>srcHigh\<close> exactly to
  \<open>dstHigh\<close> whenever \<open>dstHigh - dstLow\<close>, \<open>srcHigh - srcLow\<close> and the product of the two are
  numbers of the format, so that these operations do not round.  Whenever its results are
  finite it is monotonic in \<open>value\<close>, not strictly, with the orientation of the two
  intervals: non-decreasing when source and destination run the same way, non-increasing
  when they run opposite ways.
\<close>

theorem vmap_float64:
  assumes "finite_float64 v" and "finite_float64 v'" and "finite_float64 l1"
    and "finite_float64 h1" and "finite_float64 l2" and "finite_float64 h2"
    and "\<not> feq l1 h1"
  shows "(is_finite (vmap v l1 h1 l2 h2) \<and> is_finite (fsub h1 l1) \<longrightarrow>
            fval (vmap v l1 h1 l2 h2) =
              round64 (fval l2 +
                round64 (round64 (round64 (fval h2 - fval l2) * round64 (fval v - fval l1)) /
                         round64 (fval h1 - fval l1)))) \<and>
         (is_finite (fsub h2 l2) \<longrightarrow> feq (vmap l1 l1 h1 l2 h2) l2) \<and>
         (is_float64 (fval h2 - fval l2) \<and> is_float64 (fval h1 - fval l1) \<and>
          is_float64 ((fval h2 - fval l2) * (fval h1 - fval l1)) \<longrightarrow>
            feq (vmap h1 l1 h1 l2 h2) h2) \<and>
         (fle v v' \<and> is_finite (vmap v l1 h1 l2 h2) \<and> is_finite (vmap v' l1 h1 l2 h2) \<longrightarrow>
            ((fle l1 h1 \<longleftrightarrow> fle l2 h2) \<longrightarrow>
               fle (vmap v l1 h1 l2 h2) (vmap v' l1 h1 l2 h2)) \<and>
            ((fle l1 h1 \<longleftrightarrow> fle h2 l2) \<longrightarrow>
               fle (vmap v' l1 h1 l2 h2) (vmap v l1 h1 l2 h2)))"
proof -
  have h1: "is_finite h1" using assms(4) by (simp add: finite_float64_def)
  have formula: "fval (vmap v l1 h1 l2 h2) =
      round64 (fval l2 +
        round64 (round64 (round64 (fval h2 - fval l2) * round64 (fval v - fval l1)) /
                 round64 (fval h1 - fval l1)))"
    if "is_finite (vmap v l1 h1 l2 h2)" and "is_finite (fsub h1 l1)"
    using vmap_value [OF that(1)] that(2) by simp
  show ?thesis
    using formula vmap_lower_endpoint [OF assms(3,4,5,7)]
      vmap_upper_endpoint [OF assms(3,4,5,6,7)]
      vmap_monotone [of v l1 h1 l2 h2 v', OF _ _ _ h1]
    by blast
qed

theorem vmap_float64_witness:
  "vmap (Finite 1) (Finite 0) (Finite 4) (Finite 0) (Finite 100) = Finite 25 \<and>
   vmap (Finite 2) (Finite 0) (Finite 4) (Finite 0) (Finite 100) = Finite 50 \<and>
   feq (vmap (Finite 0) (Finite 0) (Finite 4) (Finite 0) (Finite 100)) (Finite 0) \<and>
   feq (vmap (Finite 4) (Finite 0) (Finite 4) (Finite 0) (Finite 100)) (Finite 100) \<and>
   fle (vmap (Finite 1) (Finite 0) (Finite 4) (Finite 0) (Finite 100))
       (vmap (Finite 2) (Finite 0) (Finite 4) (Finite 0) (Finite 100))"
proof -
  have n: "finite_float64 (Finite 0)" "finite_float64 (Finite 1)" "finite_float64 (Finite 2)"
    "finite_float64 (Finite 4)" "finite_float64 (Finite 100)"
    by (simp_all add: finite_float64_def is_float64_def round64_0 round64_numeral
        round64_int [of 1, simplified])
  have ex: "is_float64 100" "is_float64 4" "is_float64 400"
    by (simp_all add: is_float64_def round64_numeral)
  have ne: "\<not> feq (Finite 0) (Finite 4)" by simp
  have d: "fsub (Finite 100) (Finite 0) = Finite 100" "fsub (Finite 4) (Finite 0) = Finite 4"
    by (simp_all add: fsub_def mk_float_def round64_numeral)
  have v1: "vmap (Finite 1) (Finite 0) (Finite 4) (Finite 0) (Finite 100) = Finite 25"
    by (simp add: vmap_def fsub_def mk_float_def round64_numeral round64_int [of 1, simplified])
  have v2: "vmap (Finite 2) (Finite 0) (Finite 4) (Finite 0) (Finite 100) = Finite 50"
    by (simp add: vmap_def fsub_def mk_float_def round64_numeral)
  show ?thesis
    using vmap_float64 [OF n(2) n(3) n(1) n(4) n(1) n(5) ne] ex
    by (simp add: d v1 v2)
qed

text \<open>
  C6. If \<open>x\<close> has fewer than three elements, or \<open>x\<close> and \<open>y\<close> differ in length, the polygon
  emitter leaves the stream as it is and does not panic.
\<close>

theorem deckpolygon_noop:
  "length x < 3 \<or> length x \<noteq> length y \<Longrightarrow> deckpolygon w x y col = Inr w"
  by (auto simp: deckpolygon_def)

theorem deckpolygon_noop_witness:
  "length [Finite 0, Finite 1] < 3 \<and>
   deckpolygon ''<deck>'' [Finite 0, Finite 1] [Finite 0, Finite 1] ''red'' = Inr ''<deck>''"
  using deckpolygon_noop [of "[Finite 0, Finite 1]" "[Finite 0, Finite 1]" "''<deck>''" "''red''"]
  by simp

text \<open>
  C7. The claim: if the style string contains the separator at a position strictly between
  its start and its end, the text before the separator is the colour and the text after it
  the opacity; otherwise the whole string is the colour and the opacity is \<^verbatim>\<open>100\<close>.  The
  program looks at the first separator only: in \<^verbatim>\<open>:a:b\<close> the separator at index 2 lies
  strictly inside the string, yet the string is returned whole, because the first separator
  is at index 0.
\<close>

theorem colorop_inner_separator_counterexample:
  "'':a:b'' ! 2 = CHR '':'' \<and> (0::nat) < 2 \<and> 2 < length '':a:b'' - 1 \<and>
   colorop '':a:b'' = ('':a:b'', ''100'') \<and>
   colorop '':a:b'' \<noteq> (take 2 '':a:b'', drop 3 '':a:b'')"
  by (simp add: colorop_split)

text \<open>
  C7, as amended: if the string contains the separator and does not start with it, the
  colour is the text before the first separator and the opacity is all the text after the
  first separator (which may be empty or hold further separators); otherwise, that is with
  no separator or with the separator as first character, the whole string is the colour
  and the opacity is \<^verbatim>\<open>100\<close>.  In particular \<^verbatim>\<open>red\<close> gives \<^verbatim>\<open>red\<close>, \<^verbatim>\<open>100\<close> and \<^verbatim>\<open>red:50\<close>
  gives \<^verbatim>\<open>red\<close>, \<^verbatim>\<open>50\<close>.
\<close>

theorem colorop_first_separator:
  "colorop s =
     (if CHR '':'' \<in> set s \<and> hd s \<noteq> CHR '':''
      then (takeWhile (\<lambda>c. c \<noteq> CHR '':'') s, tl (dropWhile (\<lambda>c. c \<noteq> CHR '':'') s))
      else (s, ''100'')) \<and>
   colorop ''red'' = (''red'', ''100'') \<and>
   colorop ''red:50'' = (''red'', ''50'')"
  by (simp add: colorop_split)

theorem colorop_first_separator_witness:
  "colorop ''blue:80:x'' = (''blue'', ''80:x'') \<and> colorop ''green:'' = (''green'', [])"
  using colorop_first_separator [of "''blue:80:x''"] colorop_first_separator [of "''green:''"]
  by simp

text \<open>
  C8. The claim: \<^verbatim>\<open>:50\<close>, whose separator is the first character, gives the empty colour
  and the opacity \<^verbatim>\<open>50\<close>.  The program splits only when the index of the separator is
  greater than zero, so it does not split here.
\<close>

theorem colorop_leading_separator_counterexample:
  "colorop '':50'' \<noteq> ([], ''50'')"
  by (simp add: colorop_split)

text \<open>
  C8, as amended: \<^verbatim>\<open>:50\<close> is returned whole as the colour, with the default opacity
  \<^verbatim>\<open>100\<close>.
\<close>

theorem colorop_leading_separator:
  "colorop '':50'' = ('':50'', ''100'')"
  by (simp add: colorop_split)

text \<open>
  C9. For a shape keyword outside the ten known ones the dispatcher leaves the stream as it
  is and does not panic; two keywords of one synonym class give the same result on the same
  coordinates and style.
\<close>

theorem mapshape_keywords:
  "(shape \<notin> set [''p'', ''poly'', ''region'', ''polygon'', ''l'', ''line'', ''border'',
                 ''d'', ''dot'', ''circle''] \<longrightarrow> mapshape w x y shape col size' = Inr w) \<and>
   (k1 \<in> set [''p'', ''poly'', ''region'', ''polygon''] \<and>
    k2 \<in> set [''p'', ''poly'', ''region'', ''polygon''] \<longrightarrow>
      mapshape w x y k1 col size' = mapshape w x y k2 col size') \<and>
   (k1 \<in> set [''l'', ''line'', ''border''] \<and> k2 \<in> set [''l'', ''line'', ''border''] \<longrightarrow>
      mapshape w x y k1 col size' = mapshape w x y k2 col size') \<and>
   (k1 \<in> set [''d'', ''dot'', ''circle''] \<and> k2 \<in> set [''d'', ''dot'', ''circle''] \<longrightarrow>
      mapshape w x y k1 col size' = mapshape w x y k2 col size')"
  unfolding mapshape_def by auto

theorem mapshape_keywords_witness:
  "mapshape ''<deck>'' [Finite 0] [Finite 0] ''hexagon'' ''red'' (Finite 1) = Inr ''<deck>'' \<and>
   mapshape [] [Finite 0] [Finite 0] ''circle'' ''red'' (Finite 1) =
   mapshape [] [Finite 0] [Finite 0] ''dot'' ''red'' (Finite 1)"
  using mapshape_keywords [of "''hexagon''" "''<deck>''" "[Finite 0]" "[Finite 0]" "''red''"
      "Finite 1" "''circle''" "''dot''"]
    mapshape_keywords [of "''hexagon''" "[]" "[Finite 0]" "[Finite 0]" "''red''"
      "Finite 1" "''circle''" "''dot''"]
  by simp

text \<open>
  C10. The line emitter checks no length.  With empty coordinate sequences it reads the
  first and the last element for the closing segment and panics with an index out of range,
  nothing written, where the dot and the polygon emitter write nothing and return.  It
  panics exactly when \<open>x\<close> is empty or \<open>y\<close> is shorter than \<open>x\<close>: all its reads are in range
  only if \<open>x\<close> is not empty and \<open>y\<close> is at least as long as \<open>x\<close>.
\<close>

theorem deckpolyline_bounds:
  "deckpolyline w [] [] col size' = Inl (IndexOutOfRange, w) \<and>
   deckdot w [] [] col size' = Inr w \<and> deckpolygon w [] [] col = Inr w \<and>
   ((\<exists>e. deckpolyline w x y col size' = Inl e) \<longleftrightarrow> x = [] \<or> length y < length x)"
proof -
  have "deckdot w [] [] col size' = Inr w" "deckpolygon w [] [] col = Inr w"
    by (simp_all add: deckdot_ok dot_markup_def deckpolygon_def)
  moreover
  have "\<exists>e. deckpolyline w x y col size' = Inl e" if "x = [] \<or> length y < length x"
    using deckpolyline_panics [OF that, of w col size'] by blast
  moreover have "\<not> (\<exists>e. deckpolyline w x y col size' = Inl e)"
    if "\<not> (x = [] \<or> length y < length x)"
    using that by (simp add: deckpolyline_ok)
  ultimately show ?thesis
    using polyline_empty by blast
qed

theorem deckpolyline_bounds_witness:
  "deckpolyline ''<deck>'' [] [] ''red'' (Finite 1) = Inl (IndexOutOfRange, ''<deck>'') \<and>
   (\<exists>e. deckpolyline ''<deck>'' [Finite 0, Finite 1] [Finite 0] ''red'' (Finite 1) = Inl e) \<and>
   \<not> (\<exists>e. deckpolyline [] [Finite 0] [Finite 0] ''red'' (Finite 1) = Inl e)"
  using deckpolyline_bounds [of "''<deck>''" "''red''" "Finite 1" "[Finite 0, Finite 1]" "[Finite 0]"]
    deckpolyline_bounds [of "[]" "''red''" "Finite 1" "[Finite 0]" "[Finite 0]"]
  by simp




end
